theory Spec2Isabelle
  imports Main
begin

section \<open>Data model\<close>

text \<open>
  The Kubernetes objects of \<^verbatim>\<open>kubernetes_client.go\<close>, reduced to the fields the client
  reads or writes: an owner reference with its kind, a pod with its name, namespace, owner
  references and assigned node, and a node with its name, provider id, annotation map and
  unschedulable flag. A Go map may be nil; the annotation map is therefore an optional map.
\<close>

record ownerReference =
  Kind :: string

record pod =
  Name :: string
  Namespace :: string
  OwnerReferences :: "ownerReference list"
  NodeName :: string

record node =
  NodeObjName :: string
  ProviderID :: string
  Annotations :: "(string \<rightharpoonup> string) option"
  Unschedulable :: bool

text \<open>
  An error value is observed by the client only through its message and through the
  predicates of the apimachinery \<^verbatim>\<open>errors\<close> package; the model keeps one field per
  observation and assumes nothing about how they combine.
\<close>

record error =
  Error :: string
  IsNotFound :: bool
  IsTooManyRequests :: bool
  IsForbidden :: bool
  HasNamespaceTerminatingCause :: bool

definition Errorf :: "string \<Rightarrow> error" where
  "Errorf msg = \<lparr>Error = msg, IsNotFound = False, IsTooManyRequests = False,
     IsForbidden = False, HasNamespaceTerminatingCause = False\<rparr>"

section \<open>Pod set filters\<close>

text \<open>
  \<^verbatim>\<open>filterOutPodByOwnerReferenceKind\<close>: two nested range loops; the pod is appended to
  the output inside the inner loop, once per owner reference whose kind differs.
\<close>

definition filterOutPodByOwnerReferenceKind :: "pod list \<Rightarrow> string \<Rightarrow> pod list" where
  "filterOutPodByOwnerReferenceKind podList kind =
     fold (\<lambda>pod output.
        fold (\<lambda>ownerReference output.
           if Kind ownerReference \<noteq> kind then output @ [pod] else output)
          (OwnerReferences pod) output)
       podList []"

text \<open>\<^verbatim>\<open>filterOutPodByNode\<close>: one range loop, the pod is appended when its node matches.\<close>

definition filterOutPodByNode :: "pod list \<Rightarrow> string \<Rightarrow> pod list" where
  "filterOutPodByNode podList nodeName =
     fold (\<lambda>pod output. if NodeName pod = nodeName then output @ [pod] else output)
       podList []"

section \<open>Channels\<close>

text \<open>
  A Go channel, as far as this client uses one: a capacity fixed by \<^verbatim>\<open>make\<close>, the
  queue of buffered values, and whether it has been closed. \<^verbatim>\<open>len\<close> is the number of
  buffered values. A send with no receiver waiting completes only into a free buffer
  slot; otherwise the sender blocks (\<open>None\<close>). A receive takes the oldest buffered value
  and blocks on an empty open channel. A closed channel is always ready to receive from.
\<close>

record 'a chan =
  capacity :: nat
  queue :: "'a list"
  closed :: bool

definition make_chan :: "nat \<Rightarrow> 'a chan" where
  "make_chan n = \<lparr>capacity = n, queue = [], closed = False\<rparr>"

definition chan_len :: "'a chan \<Rightarrow> nat" where
  "chan_len ch = length (queue ch)"

definition chan_send :: "'a chan \<Rightarrow> 'a \<Rightarrow> 'a chan option" where
  "chan_send ch v =
     (if length (queue ch) < capacity ch then Some (ch\<lparr>queue := queue ch @ [v]\<rparr>) else None)"

definition chan_recv :: "'a chan \<Rightarrow> ('a \<times> 'a chan) option" where
  "chan_recv ch = (case queue ch of [] \<Rightarrow> None | v # q \<Rightarrow> Some (v, ch\<lparr>queue := q\<rparr>))"

definition chan_close :: "'a chan \<Rightarrow> 'a chan" where
  "chan_close ch = ch\<lparr>closed := True\<rparr>"

section \<open>Evicting one pod\<close>

text \<open>
  \<^verbatim>\<open>evictPod\<close> calls the eviction API in a \<^verbatim>\<open>for\<close> loop without a bound. The API is
  the environment: \<open>evict i\<close> is the error returned by attempt \<open>i\<close> (\<open>None\<close> is Go's nil),
  and \<open>stop i\<close> tells whether the stop channel is found closed by the non-blocking select
  that follows attempt \<open>i\<close>. The loop may run forever, which is the value \<open>None\<close>. The
  events record every API call (namespace, name) and every sleep (in seconds).
\<close>

datatype event = Evict string string | Sleep nat

record evictPod_result =
  ret :: "error option"
  events :: "event list"

partial_function (option) evictPod_loop ::
  "(nat \<Rightarrow> error option) \<Rightarrow> pod \<Rightarrow> (nat \<Rightarrow> bool) \<Rightarrow> nat \<Rightarrow> event list
     \<Rightarrow> evictPod_result option" where
  "evictPod_loop evict pod stop i tr =
    (let tr = tr @ [Evict (Namespace pod) (Name pod)] in
     case evict i of
       None \<Rightarrow> Some \<lparr>ret = None, events = tr\<rparr>
     | Some err \<Rightarrow>
        if IsNotFound err then Some \<lparr>ret = None, events = tr\<rparr>
        else if IsTooManyRequests err then
          (let tr = tr @ [Sleep 5] in
           if stop i then Some \<lparr>ret = None, events = tr\<rparr>
           else evictPod_loop evict pod stop (Suc i) tr)
        else if IsForbidden err \<and> HasNamespaceTerminatingCause err
          then Some \<lparr>ret = None, events = tr\<rparr>
        else Some \<lparr>ret = Some err, events = tr\<rparr>)"

declare evictPod_loop.simps [code]

definition evictPod :: "(nat \<Rightarrow> error option) \<Rightarrow> pod \<Rightarrow> (nat \<Rightarrow> bool) \<Rightarrow> evictPod_result option" where
  "evictPod evict pod stop = evictPod_loop evict pod stop 0 []"

definition attempts :: "evictPod_result \<Rightarrow> nat" where
  "attempts r = length (filter (\<lambda>e. case e of Evict _ _ \<Rightarrow> True | Sleep _ \<Rightarrow> False) (events r))"

section \<open>Evicting pods in batches\<close>

text \<open>
  \<^verbatim>\<open>evictPods\<close> slices the pod list into batches of \<^verbatim>\<open>podsPerBatch\<close>, starts one
  goroutine per pod of the batch and then runs one non-blocking select: when the stop
  channel is closed at that moment it closes the per-pod stop channels and returns,
  otherwise it waits for the wait group. The environment gives \<open>evict j i\<close>, the answer to
  attempt \<open>i\<close> of the task for position \<open>j\<close> of the pod list, and \<open>stop k\<close>, whether the stop
  channel is closed at the select that follows the dispatch of batch \<open>k\<close>.

  A task is the goroutine body: it runs \<^verbatim>\<open>evictPod\<close> on its own stop channel, which is
  open for as long as \<^verbatim>\<open>evictPods\<close> waits, sends a non-nil error on \<^verbatim>\<open>errCh\<close> and
  only then calls \<^verbatim>\<open>wg.Done\<close>. Its value is the channel after the send, or \<open>None\<close> when
  it never reaches \<^verbatim>\<open>wg.Done\<close>. Nobody receives from \<^verbatim>\<open>errCh\<close> while the loop runs:
  the only receive is in the deferred function.
\<close>

datatype 'a outcome = Returns 'a | Blocks

record evictPods_state =
  numPodsLeft :: nat
  podsProcessedSoFar :: nat
  errCh :: "error chan"
  stopChs :: "bool chan list"
  batches :: "pod list list"

definition podsPerBatch :: nat where
  "podsPerBatch = 10"

definition evict_task ::
  "(nat \<Rightarrow> nat \<Rightarrow> error option) \<Rightarrow> nat \<Rightarrow> pod \<Rightarrow> error chan \<Rightarrow> error chan option" where
  "evict_task evict j thisPod ch =
     (case evictPod (evict j) thisPod (\<lambda>_. False) of
        None \<Rightarrow> None
      | Some r \<Rightarrow> (case ret r of None \<Rightarrow> Some ch | Some err \<Rightarrow> chan_send ch err))"

text \<open>\<^verbatim>\<open>wg.Wait\<close> returns when every task of the batch has called \<^verbatim>\<open>wg.Done\<close>.\<close>

fun wg_Wait ::
  "(nat \<Rightarrow> nat \<Rightarrow> error option) \<Rightarrow> nat \<Rightarrow> pod list \<Rightarrow> error chan \<Rightarrow> error chan option" where
  "wg_Wait evict j [] ch = Some ch"
| "wg_Wait evict j (thisPod # rest) ch =
     (case evict_task evict j thisPod ch of
        None \<Rightarrow> None
      | Some ch' \<Rightarrow> wg_Wait evict (Suc j) rest ch')"

text \<open>
  The loop. The slice \<^verbatim>\<open>pods[podsProcessedSoFar : podsProcessedSoFar+numPodsThisBatch]\<close>
  is in range because the two counters always add up to the length of the list. The
  conversion of the two integers to \<^verbatim>\<open>float64\<close> for \<^verbatim>\<open>math.Min\<close> is exact for slice
  lengths. The field \<open>batches\<close> records the batches dispatched so far.
\<close>

function evictPods_loop ::
  "(nat \<Rightarrow> nat \<Rightarrow> error option) \<Rightarrow> pod list \<Rightarrow> (nat \<Rightarrow> bool) \<Rightarrow> evictPods_state
     \<Rightarrow> unit outcome \<times> evictPods_state" where
  "evictPods_loop evict pods stop s =
    (if numPodsLeft s > 0 then
       (let numPodsThisBatch = min (numPodsLeft s) podsPerBatch;
            podsThisBatch = take numPodsThisBatch (drop (podsProcessedSoFar s) pods);
            k = length (batches s);
            s = s\<lparr>stopChs := replicate numPodsThisBatch (make_chan 0),
                  batches := batches s @ [podsThisBatch]\<rparr>
        in if stop k then (Returns (), s\<lparr>stopChs := map chan_close (stopChs s)\<rparr>)
           else (case wg_Wait evict (podsProcessedSoFar s) podsThisBatch (errCh s) of
                   None \<Rightarrow> (Blocks, s)
                 | Some ch \<Rightarrow>
                     evictPods_loop evict pods stop
                       (s\<lparr>errCh := ch,
                          numPodsLeft := numPodsLeft s - numPodsThisBatch,
                          podsProcessedSoFar := podsProcessedSoFar s + numPodsThisBatch\<rparr>)))
     else (Returns (), s))"
  by pat_completeness auto
termination
  by (relation "measure (\<lambda>(evict, pods, stop, s). numPodsLeft s)")
     (auto simp: podsPerBatch_def)

declare evictPods_loop.simps [simp del]

text \<open>
  \<^verbatim>\<open>evictPods\<close> with its deferred function, which runs when the loop returns: it
  replaces the result by a wrapped error when \<^verbatim>\<open>len(errCh) > 0\<close>.
\<close>

definition evictPods_start :: "pod list \<Rightarrow> evictPods_state" where
  "evictPods_start pods =
     \<lparr>numPodsLeft = length pods, podsProcessedSoFar = 0, errCh = make_chan 0,
      stopChs = [], batches = []\<rparr>"

definition evictPods ::
  "(nat \<Rightarrow> nat \<Rightarrow> error option) \<Rightarrow> pod list \<Rightarrow> (nat \<Rightarrow> bool)
     \<Rightarrow> error option outcome \<times> evictPods_state" where
  "evictPods evict pods stop =
    (case evictPods_loop evict pods stop (evictPods_start pods) of
       (Blocks, s) \<Rightarrow> (Blocks, s)
     | (Returns _, s) \<Rightarrow>
         (if chan_len (errCh s) > 0 then
            (case chan_recv (errCh s) of
               None \<Rightarrow> (Blocks, s)
             | Some (thisErr, ch) \<Rightarrow>
                 (Returns (Some (Errorf (''error evicting pods, last error was: '' @ Error thisErr))),
                  s\<lparr>errCh := ch\<rparr>))
          else (Returns None, s)))"

section \<open>The cluster\<close>

text \<open>
  The client set is the environment of every operation: what the control plane answers
  to each call, and how the scheduler interleaves the goroutines of a drain.
  \<^item> \<open>get_node\<close>, \<open>update_node\<close>: the answers to \<^verbatim>\<open>Nodes().Get\<close> and \<^verbatim>\<open>Nodes().Update\<close>.
  \<^item> \<open>list_pods sel i\<close>: the answer to the \<open>i\<close>-th \<^verbatim>\<open>Pods("").List\<close> call with field
    selector \<open>sel\<close>; call \<open>0\<close> is the first listing, the later ones are the poller's.
  \<^item> \<open>evict_response j i\<close>: the answer to attempt \<open>i\<close> of the eviction task for position
    \<open>j\<close> of the filtered pod list.
  \<^item> \<open>polls_before_interrupt t\<close>: how many listings the poller completes before the
    timer of \<open>t\<close> seconds or the context fires, and \<open>interrupt\<close>: which of the two fires.
  \<^item> \<open>batches_before_stop\<close>: how many batch selects of \<^verbatim>\<open>evictPods\<close> run before the
    stop channel is closed, when it is.
\<close>

datatype interrupt = TimeoutReached | ContextDone

datatype resolution = DoneDraining | Interrupted interrupt

record cluster =
  get_node :: "string \<Rightarrow> error + node"
  update_node :: "node \<Rightarrow> error option"
  list_pods :: "string \<Rightarrow> nat \<Rightarrow> error + pod list"
  evict_response :: "nat \<Rightarrow> nat \<Rightarrow> error option"
  polls_before_interrupt :: "int \<Rightarrow> nat"
  interrupt :: interrupt
  batches_before_stop :: nat

section \<open>Draining a node\<close>

text \<open>
  The polling goroutine of \<^verbatim>\<open>DrainNode\<close>: it lists and filters the pending pods and
  sends on \<^verbatim>\<open>doneDraining\<close> when none is left; a failed listing is retried. \<open>poll list n i\<close>
  tells whether one of the \<open>n\<close> listings from call \<open>i\<close> on finds no pending pod.
\<close>

fun poll :: "(nat \<Rightarrow> error + pod list) \<Rightarrow> nat \<Rightarrow> nat \<Rightarrow> bool" where
  "poll list 0 i = False"
| "poll list (Suc n) i =
     (case list i of
        Inl err \<Rightarrow> poll list n (Suc i)
      | Inr items \<Rightarrow>
          (let podsPending = length (filterOutPodByOwnerReferenceKind items ''DaemonSet'')
           in if podsPending = 0 then True else poll list n (Suc i)))"

record drain_session =
  resolved :: resolution
  stopPolling :: "bool chan"
  stopEvicting :: "bool chan"
  evicting :: "error option outcome \<times> evictPods_state"
  drain_errCh :: "error chan"

record drain_result =
  drain_err :: "error option"
  session :: "drain_session option"

text \<open>
  \<^verbatim>\<open>DrainNode\<close>: list, filter, start the eviction goroutine and the poller, then select
  on \<^verbatim>\<open>doneDraining\<close>, the timer and the context. The eviction goroutine sends the error
  of \<^verbatim>\<open>evictPods\<close>, when there is one, on the \<^verbatim>\<open>errCh\<close> of \<^verbatim>\<open>DrainNode\<close>. The deferred
  function runs last and is given the eviction goroutine at its furthest progress.
\<close>

definition nodeFieldSelector :: "string \<Rightarrow> string" where
  "nodeFieldSelector nodeName =
     ''spec.nodeName='' @ nodeName @ '',metadata.namespace!=kube-system''"

definition DrainNode :: "cluster \<Rightarrow> string \<Rightarrow> int \<Rightarrow> drain_result" where
  "DrainNode c nodeName drainTimeout =
    (let fieldSelector = nodeFieldSelector nodeName in
     case list_pods c fieldSelector 0 of
       Inl e \<Rightarrow> \<lparr>drain_err = Some e, session = None\<rparr>
     | Inr items \<Rightarrow>
        (let filteredPodList = filterOutPodByOwnerReferenceKind items ''DaemonSet'';
             stopEvicting = make_chan 0;
             stopPolling = make_chan 0;
             errCh = make_chan 0;
             res = (if poll (list_pods c fieldSelector) (polls_before_interrupt c drainTimeout) 1
                    then DoneDraining else Interrupted (interrupt c));
             stop = (\<lambda>k. res \<noteq> DoneDraining \<and> batches_before_stop c \<le> k);
             evicting = evictPods (evict_response c) filteredPodList stop;
             errCh = (case fst evicting of
                        Returns (Some e) \<Rightarrow>
                          (case chan_send errCh e of None \<Rightarrow> errCh | Some ch \<Rightarrow> ch)
                      | _ \<Rightarrow> errCh);
             sess = (case res of
                       DoneDraining \<Rightarrow>
                         \<lparr>resolved = res, stopPolling = stopPolling, stopEvicting = stopEvicting,
                          evicting = evicting, drain_errCh = errCh\<rparr>
                     | Interrupted TimeoutReached \<Rightarrow>
                         \<lparr>resolved = res, stopPolling = chan_close stopPolling,
                          stopEvicting = chan_close stopEvicting,
                          evicting = evicting, drain_errCh = errCh\<rparr>
                     | Interrupted ContextDone \<Rightarrow>
                         \<lparr>resolved = res, stopPolling = chan_close stopPolling,
                          stopEvicting = chan_close stopEvicting,
                          evicting = evicting, drain_errCh = errCh\<rparr>)
         in if chan_len errCh > 0 then
              (case chan_recv errCh of
                 None \<Rightarrow> \<lparr>drain_err = None, session = Some sess\<rparr>
               | Some (e, ch) \<Rightarrow> \<lparr>drain_err = Some e, session = Some (sess\<lparr>drain_errCh := ch\<rparr>)\<rparr>)
            else \<lparr>drain_err = None, session = Some sess\<rparr>))"

section \<open>Node operations\<close>

text \<open>
  A call either returns or panics; the two run-time panics these operations can raise
  are an index out of range and an assignment to an entry of a nil map.
\<close>

datatype panic = IndexOutOfRange | NilMapAssignment

datatype 'a call = Return 'a | Panic panic

text \<open>\<^verbatim>\<open>strings.Split\<close> with a separator of one character.\<close>

fun Split :: "string \<Rightarrow> char \<Rightarrow> string list" where
  "Split [] sep = [[]]"
| "Split (x # xs) sep =
     (if x = sep then [] # Split xs sep
      else (case Split xs sep of [] \<Rightarrow> [[x]] | w # ws \<Rightarrow> (x # w) # ws))"

definition GetNode :: "cluster \<Rightarrow> string \<Rightarrow> error + node" where
  "GetNode c nodeName = get_node c nodeName"

text \<open>
  \<^verbatim>\<open>GetProjectIdAndZoneFromNode\<close> has the named results \<^verbatim>\<open>projectID\<close>, \<^verbatim>\<open>zone\<close> and
  \<^verbatim>\<open>err\<close>; the bare \<^verbatim>\<open>return\<close> after a failed fetch returns the two empty strings.
\<close>

definition GetProjectIdAndZoneFromNode ::
  "cluster \<Rightarrow> string \<Rightarrow> (string \<times> string \<times> error option) call" where
  "GetProjectIdAndZoneFromNode c nodeName =
    (case GetNode c nodeName of
       Inl err \<Rightarrow> Return ([], [], Some err)
     | Inr node \<Rightarrow>
        (let s = Split (ProviderID node) CHR ''/'' in
         if length s \<le> 2 then Panic IndexOutOfRange
         else if length s \<le> 3 then Panic IndexOutOfRange
         else Return (s ! 2, s ! 3, None)))"

text \<open>
  \<^verbatim>\<open>SetNodeAnnotation\<close>: fetch the node, assign the entry in its annotation map, update.
  The result holds the returned error and the node handed to \<^verbatim>\<open>Update\<close>, if any.
\<close>

record annotation_result =
  set_err :: "error option"
  updated :: "node option"

definition SetNodeAnnotation ::
  "cluster \<Rightarrow> string \<Rightarrow> string \<Rightarrow> string \<Rightarrow> annotation_result call" where
  "SetNodeAnnotation c nodeName key val =
    (case GetNode c nodeName of
       Inl err \<Rightarrow>
         Return \<lparr>set_err = Some (Errorf
                   (''Error getting node information before setting annotation:'' @ [CHR 0x0A]
                      @ Error err)),
                 updated = None\<rparr>
     | Inr newNode \<Rightarrow>
        (case Annotations newNode of
           None \<Rightarrow> Panic NilMapAssignment
         | Some m \<Rightarrow>
            (let newNode = newNode\<lparr>Annotations := Some (m(key \<mapsto> val))\<rparr>
             in Return \<lparr>set_err = update_node c newNode, updated = Some newNode\<rparr>)))"

section \<open>Notions used in the statements\<close>

text \<open>
  How \<^verbatim>\<open>evictPod\<close> treats an answer, in the order of its \<^verbatim>\<open>if\<close> chain: an answer is
  \<open>throttled\<close> when it reaches the \<^verbatim>\<open>IsTooManyRequests\<close> branch, an error is \<open>fatal\<close> when it
  reaches the final \<^verbatim>\<open>else\<close>. \<open>retries pod n\<close> are the events of \<open>n\<close> throttled attempts,
  \<open>last_attempt\<close> is the result of the attempt after which the loop is left.
\<close>

definition throttled :: "error option \<Rightarrow> bool" where
  "throttled resp =
     (case resp of None \<Rightarrow> False | Some e \<Rightarrow> \<not> IsNotFound e \<and> IsTooManyRequests e)"

definition fatal :: "error \<Rightarrow> bool" where
  "fatal e = (\<not> IsNotFound e \<and> \<not> IsTooManyRequests e
              \<and> \<not> (IsForbidden e \<and> HasNamespaceTerminatingCause e))"

definition retries :: "pod \<Rightarrow> nat \<Rightarrow> event list" where
  "retries pod n = concat (replicate n [Evict (Namespace pod) (Name pod), Sleep 5])"

definition last_attempt :: "pod \<Rightarrow> error option \<Rightarrow> event list \<Rightarrow> evictPod_result" where
  "last_attempt pod resp tr =
     \<lparr>ret = (case resp of None \<Rightarrow> None | Some e \<Rightarrow> if fatal e then Some e else None),
      events = tr @ Evict (Namespace pod) (Name pod) # (if throttled resp then [Sleep 5] else [])\<rparr>"

text \<open>
  A task of a batch reaches \<^verbatim>\<open>wg.Done\<close> when its \<^verbatim>\<open>evictPod\<close> returns nil (\<open>task_ok\<close>);
  the barrier of batch \<open>k\<close> completes when every task of that batch does (\<open>barrier_done\<close>).
\<close>

definition task_ok :: "(nat \<Rightarrow> error option) \<Rightarrow> pod \<Rightarrow> bool" where
  "task_ok ev thisPod =
     (case evictPod ev thisPod (\<lambda>_. False) of None \<Rightarrow> False | Some r \<Rightarrow> ret r = None)"

definition barrier_done :: "(nat \<Rightarrow> nat \<Rightarrow> error option) \<Rightarrow> pod list \<Rightarrow> nat \<Rightarrow> bool" where
  "barrier_done evict pods k =
     (\<forall>j \<in> {10 * k ..< min (10 * k + 10) (length pods)}. task_ok (evict j) (pods ! j))"

text \<open>The invariant of the batch loop at its head, and what holds of its result.\<close>

definition loop_inv ::
  "(nat \<Rightarrow> nat \<Rightarrow> error option) \<Rightarrow> pod list \<Rightarrow> (nat \<Rightarrow> bool) \<Rightarrow> evictPods_state \<Rightarrow> bool" where
  "loop_inv evict pods stop s \<longleftrightarrow>
     podsProcessedSoFar s + numPodsLeft s = length pods \<and>
     capacity (errCh s) = 0 \<and> queue (errCh s) = [] \<and>
     (0 < numPodsLeft s \<longrightarrow> podsProcessedSoFar s = 10 * length (batches s)) \<and>
     (numPodsLeft s = 0 \<longrightarrow> length (batches s) = (length pods + 9) div 10) \<and>
     (\<forall>k<length (batches s).
        batches s ! k = take 10 (drop (10 * k) pods) \<and> \<not> stop k \<and> barrier_done evict pods k)"

definition loop_post ::
  "(nat \<Rightarrow> nat \<Rightarrow> error option) \<Rightarrow> pod list \<Rightarrow> (nat \<Rightarrow> bool)
     \<Rightarrow> unit outcome \<times> evictPods_state \<Rightarrow> bool" where
  "loop_post evict pods stop res \<longleftrightarrow>
     (\<forall>k<length (batches (snd res)). batches (snd res) ! k = take 10 (drop (10 * k) pods)) \<and>
     length (batches (snd res)) \<le> (length pods + 9) div 10 \<and>
     (\<forall>k. Suc k < length (batches (snd res)) \<longrightarrow> \<not> stop k \<and> barrier_done evict pods k) \<and>
     capacity (errCh (snd res)) = 0 \<and> queue (errCh (snd res)) = [] \<and>
     ((\<forall>k. \<not> stop k) \<and> (\<forall>j<length pods. task_ok (evict j) (pods ! j)) \<longrightarrow>
        fst res = Returns () \<and> length (batches (snd res)) = (length pods + 9) div 10)"

section \<open>Concrete pods, errors, nodes and clusters\<close>

definition daemon_pod :: pod where
  "daemon_pod = \<lparr>Name = ''fluentd-x2k'', Namespace = ''logging'',
     OwnerReferences = [\<lparr>Kind = ''DaemonSet''\<rparr>], NodeName = ''node-a''\<rparr>"

definition bare_pod :: pod where
  "bare_pod = \<lparr>Name = ''debug'', Namespace = ''default'',
     OwnerReferences = [], NodeName = ''node-a''\<rparr>"

definition web_pod :: pod where
  "web_pod = \<lparr>Name = ''web-1'', Namespace = ''default'',
     OwnerReferences = [\<lparr>Kind = ''ReplicaSet''\<rparr>], NodeName = ''node-a''\<rparr>"

definition twin_pod :: pod where
  "twin_pod = \<lparr>Name = ''job-7'', Namespace = ''batch'',
     OwnerReferences = [\<lparr>Kind = ''Job''\<rparr>, \<lparr>Kind = ''ReplicaSet''\<rparr>], NodeName = ''node-a''\<rparr>"

definition worker :: "nat \<Rightarrow> pod" where
  "worker n = \<lparr>Name = ''web-'' @ replicate n CHR ''x'', Namespace = ''default'',
     OwnerReferences = [\<lparr>Kind = ''ReplicaSet''\<rparr>], NodeName = ''node-a''\<rparr>"

definition throttling :: error where
  "throttling = \<lparr>Error = ''Cannot evict pod as it would violate the disruption budget'',
     IsNotFound = False, IsTooManyRequests = True, IsForbidden = False,
     HasNamespaceTerminatingCause = False\<rparr>"

definition not_found :: error where
  "not_found = \<lparr>Error = ''not found'', IsNotFound = True, IsTooManyRequests = False,
     IsForbidden = False, HasNamespaceTerminatingCause = False\<rparr>"

definition internal_error :: error where
  "internal_error = \<lparr>Error = ''Internal error occurred'', IsNotFound = False,
     IsTooManyRequests = False, IsForbidden = False, HasNamespaceTerminatingCause = False\<rparr>"

definition gke_node :: node where
  "gke_node = \<lparr>NodeObjName = ''gke-node-1'',
     ProviderID = ''gce://my-project/europe-west1-b/gke-node-1'',
     Annotations = Some Map.empty, Unschedulable = False\<rparr>"

definition fresh_node :: node where
  "fresh_node = \<lparr>NodeObjName = ''gke-node-2'',
     ProviderID = ''gce://my-project/europe-west1-b/gke-node-2'',
     Annotations = None, Unschedulable = False\<rparr>"

text \<open>
  A cluster with the two nodes above, where every listing returns \<open>pods\<close> (they never go
  away), every eviction attempt is answered by \<open>resp\<close>, one poll completes before the
  timer fires, and the first batch select runs before the stop channel is closed.
\<close>

definition cluster_of :: "pod list \<Rightarrow> error option \<Rightarrow> cluster" where
  "cluster_of pods resp =
     \<lparr>get_node = (\<lambda>n. if n = ''gke-node-1'' then Inr gke_node
                       else if n = ''gke-node-2'' then Inr fresh_node else Inl not_found),
      update_node = (\<lambda>_. None),
      list_pods = (\<lambda>_ _. Inr pods),
      evict_response = (\<lambda>_ _. resp),
      polls_before_interrupt = (\<lambda>_. 1),
      interrupt = TimeoutReached,
      batches_before_stop = 1\<rparr>"

text \<open>Two throttled answers, then success.\<close>

definition twice_throttled :: "nat \<Rightarrow> error option" where
  "twice_throttled i = (if i < 2 then Some throttling else None)"

text \<open>One throttled answer, then an internal error.\<close>

definition throttled_then_failing :: "nat \<Rightarrow> error option" where
  "throttled_then_failing i = (if i < 1 then Some throttling else Some internal_error)"

text \<open>Every eviction succeeds at once, except at position 3 of the pod list: an internal error.\<close>

definition fatal_at_3 :: "nat \<Rightarrow> nat \<Rightarrow> error option" where
  "fatal_at_3 j i = (if j = 3 then Some internal_error else None)"

section \<open>Properties of the filters\<close>

lemma inner_fold_replicate:
  "fold (\<lambda>r out. if Kind r \<noteq> kind then out @ [p] else out) refs out =
   out @ replicate (length (filter (\<lambda>r. Kind r \<noteq> kind) refs)) p"
  by (induction refs arbitrary: out) (simp_all add: replicate_app_Cons_same)

lemma outer_fold_concat:
  "fold (\<lambda>pod output.
      fold (\<lambda>r output. if Kind r \<noteq> kind then output @ [pod] else output)
        (OwnerReferences pod) output) podList out =
   out @ concat (map (\<lambda>pod.
      replicate (length (filter (\<lambda>r. Kind r \<noteq> kind) (OwnerReferences pod))) pod) podList)"
  by (induction podList arbitrary: out) (simp_all add: inner_fold_replicate)

lemma filterOutPodByOwnerReferenceKind_concat:
  "filterOutPodByOwnerReferenceKind podList kind =
   concat (map (\<lambda>pod.
      replicate (length (filter (\<lambda>r. Kind r \<noteq> kind) (OwnerReferences pod))) pod) podList)"
  by (simp add: filterOutPodByOwnerReferenceKind_def outer_fold_concat)

lemma filterOutPodByOwnerReferenceKind_set:
  "set (filterOutPodByOwnerReferenceKind podList kind) =
   {p \<in> set podList. \<exists>r \<in> set (OwnerReferences p). Kind r \<noteq> kind}"
  by (auto simp: filterOutPodByOwnerReferenceKind_concat filter_empty_conv)

lemma filterOutPodByNode_filter:
  "filterOutPodByNode podList nodeName = filter (\<lambda>p. NodeName p = nodeName) podList"
proof -
  have "fold (\<lambda>pod output. if NodeName pod = nodeName then output @ [pod] else output)
          podList out = out @ filter (\<lambda>p. NodeName p = nodeName) podList" for out
    by (induction podList arbitrary: out) simp_all
  then show ?thesis by (simp add: filterOutPodByNode_def)
qed

lemma filterOutPodByOwnerReferenceKind_distinct:
  "distinct podList \<Longrightarrow>
   \<forall>p \<in> set podList. length (filter (\<lambda>r. Kind r \<noteq> kind) (OwnerReferences p)) \<le> 1 \<Longrightarrow>
   distinct (filterOutPodByOwnerReferenceKind podList kind)"
proof (induction podList)
  case Nil
  then show ?case by (simp add: filterOutPodByOwnerReferenceKind_concat)
next
  case (Cons p ps)
  let ?n = "length (filter (\<lambda>r. Kind r \<noteq> kind) (OwnerReferences p))"
  from Cons.prems have "?n \<le> 1" by simp
  then have n: "?n = 0 \<or> ?n = 1" by linarith
  from Cons have d: "distinct (filterOutPodByOwnerReferenceKind ps kind)" by simp
  have s: "set (filterOutPodByOwnerReferenceKind ps kind) \<subseteq> set ps"
    by (auto simp: filterOutPodByOwnerReferenceKind_set)
  have e: "filterOutPodByOwnerReferenceKind (p # ps) kind =
        replicate ?n p @ filterOutPodByOwnerReferenceKind ps kind"
    by (simp add: filterOutPodByOwnerReferenceKind_concat)
  from n d s Cons.prems(1) show ?case
    unfolding e by auto
qed

text \<open>
  Claim C2. The output of the exclude-by-owner-kind filter is, pod by pod and in the order
  of the input, one copy of the pod for every owner reference whose kind differs from the
  excluded kind. In particular a pod without owner references is not in the output, and
  neither is a pod whose only owner reference has the excluded kind.
\<close>

theorem filterOutPodByOwnerReferenceKind_once_per_other_owner:
  "filterOutPodByOwnerReferenceKind podList kind =
     concat (map (\<lambda>pod.
       replicate (length (filter (\<lambda>r. Kind r \<noteq> kind) (OwnerReferences pod))) pod) podList)
   \<and> (\<forall>p. OwnerReferences p = [] \<longrightarrow> p \<notin> set (filterOutPodByOwnerReferenceKind podList kind))
   \<and> (\<forall>p r. OwnerReferences p = [r] \<and> Kind r = kind \<longrightarrow>
         p \<notin> set (filterOutPodByOwnerReferenceKind podList kind))"
  by (simp add: filterOutPodByOwnerReferenceKind_set)
     (simp add: filterOutPodByOwnerReferenceKind_concat)

theorem filterOutPodByOwnerReferenceKind_once_per_other_owner_witness:
  "filterOutPodByOwnerReferenceKind [daemon_pod, bare_pod, web_pod, twin_pod] ''DaemonSet'' =
     [web_pod, twin_pod, twin_pod]
   \<and> OwnerReferences bare_pod = []
   \<and> bare_pod \<notin> set (filterOutPodByOwnerReferenceKind
                        [daemon_pod, bare_pod, web_pod, twin_pod] ''DaemonSet'')
   \<and> OwnerReferences daemon_pod = [\<lparr>Kind = ''DaemonSet''\<rparr>]
   \<and> daemon_pod \<notin> set (filterOutPodByOwnerReferenceKind
                          [daemon_pod, bare_pod, web_pod, twin_pod] ''DaemonSet'')"
  using filterOutPodByOwnerReferenceKind_once_per_other_owner
          [of "[daemon_pod, bare_pod, web_pod, twin_pod]" "''DaemonSet''"]
  by (simp add: daemon_pod_def bare_pod_def web_pod_def twin_pod_def)

section \<open>Properties of evicting one pod\<close>

lemma evictPod_loop_last:
  "\<not> throttled (evict i) \<or> stop i \<Longrightarrow>
   evictPod_loop evict pod stop i tr = Some (last_attempt pod (evict i) tr)"
  by (subst evictPod_loop.simps)
     (auto simp: last_attempt_def throttled_def fatal_def Let_def split: option.splits)

lemma evictPod_loop_retry:
  "throttled (evict i) \<Longrightarrow> \<not> stop i \<Longrightarrow>
   evictPod_loop evict pod stop i tr =
   evictPod_loop evict pod stop (Suc i) (tr @ [Evict (Namespace pod) (Name pod), Sleep 5])"
  by (subst evictPod_loop.simps)
     (auto simp: throttled_def Let_def split: option.splits)

lemma retries_Suc: "retries pod (Suc n) = [Evict (Namespace pod) (Name pod), Sleep 5] @ retries pod n"
  by (simp add: retries_def)

lemma evictPod_loop_retries:
  "\<forall>j<n. throttled (evict (i + j)) \<and> \<not> stop (i + j) \<Longrightarrow>
   evictPod_loop evict pod stop i tr =
   evictPod_loop evict pod stop (i + n) (tr @ retries pod n)"
proof (induction n arbitrary: i tr)
  case 0
  then show ?case by (simp add: retries_def)
next
  case (Suc n)
  from Suc.prems have h0: "throttled (evict i)" "\<not> stop i" by force+
  from Suc.prems have hs: "\<forall>j<n. throttled (evict (Suc i + j)) \<and> \<not> stop (Suc i + j)"
    by (metis Suc_less_eq add_Suc_right add_Suc)
  show ?case
    using h0 evictPod_loop_retry [where evict=evict and i=i and stop=stop and pod=pod and tr=tr]
      Suc.IH [OF hs]
    by (simp add: retries_Suc)
qed

lemma evictPod_loop_Some_D:
  assumes "evictPod_loop evict pod stop i tr = Some r"
  shows "\<exists>n. (\<forall>j<n. throttled (evict (i + j)) \<and> \<not> stop (i + j))
      \<and> (\<not> throttled (evict (i + n)) \<or> stop (i + n))
      \<and> r = last_attempt pod (evict (i + n)) (tr @ retries pod n)"
  using assms
proof (induction evict pod stop i tr r rule: evictPod_loop.raw_induct)
  case (1 loop evict pod stop i tr r)
  show ?case
  proof (cases "\<not> throttled (evict i) \<or> stop i")
    case True
    with 1(2) have "r = last_attempt pod (evict i) tr"
      by (auto simp: last_attempt_def throttled_def fatal_def Let_def split: option.splits if_splits)
    with True show ?thesis
      by (intro exI [of _ 0]) (simp add: retries_def)
  next
    case False
    with 1(2) have "loop evict pod stop (Suc i) (tr @ [Evict (Namespace pod) (Name pod), Sleep 5]) = Some r"
      by (auto simp: throttled_def Let_def split: option.splits if_splits)
    moreover from False 1(3)
    have "evictPod_loop evict pod stop (Suc i) (tr @ [Evict (Namespace pod) (Name pod), Sleep 5]) = Some r"
      using evictPod_loop_retry [where evict=evict and i=i and stop=stop and pod=pod and tr=tr]
      by simp
    ultimately have
      "\<exists>n. (\<forall>j<n. throttled (evict (Suc i + j)) \<and> \<not> stop (Suc i + j))
          \<and> (\<not> throttled (evict (Suc i + n)) \<or> stop (Suc i + n))
          \<and> r = last_attempt pod (evict (Suc i + n))
                 ((tr @ [Evict (Namespace pod) (Name pod), Sleep 5]) @ retries pod n)"
      by (rule 1(1))
    then obtain n where
      n1: "\<forall>j<n. throttled (evict (Suc i + j)) \<and> \<not> stop (Suc i + j)" and
      n2: "\<not> throttled (evict (Suc i + n)) \<or> stop (Suc i + n)" and
      n3: "r = last_attempt pod (evict (Suc i + n))
                 ((tr @ [Evict (Namespace pod) (Name pod), Sleep 5]) @ retries pod n)"
      by (elim exE conjE) (rule that, assumption+)
    have m1: "throttled (evict (i + j)) \<and> \<not> stop (i + j)" if "j < Suc n" for j
    proof (cases j)
      case 0
      with False show ?thesis by simp
    next
      case (Suc j')
      with that have "j' < n" by simp
      with n1 have "throttled (evict (Suc i + j')) \<and> \<not> stop (Suc i + j')" by simp
      with Suc show ?thesis by simp
    qed
    have m2: "\<not> throttled (evict (i + Suc n)) \<or> stop (i + Suc n)"
      using n2 by simp
    have m3: "r = last_attempt pod (evict (i + Suc n)) (tr @ retries pod (Suc n))"
      using n3 by (simp add: retries_Suc)
    from m1 have "\<forall>j<Suc n. throttled (evict (i + j)) \<and> \<not> stop (i + j)"
      by simp
    with m2 m3 show ?thesis
      by (intro exI [of _ "Suc n"] conjI)
  qed
qed (rule assms)

lemma evictPod_loop_None:
  assumes "\<forall>j. throttled (evict (i + j)) \<and> \<not> stop (i + j)"
  shows "evictPod_loop evict pod stop i tr = None"
proof (cases "evictPod_loop evict pod stop i tr")
  case None then show ?thesis .
next
  case (Some r)
  from evictPod_loop_Some_D [OF this] assms show ?thesis by blast
qed

lemma attempts_last_attempt: "attempts (last_attempt pod resp (retries pod n)) = Suc n"
  by (induction n) (simp_all add: attempts_def last_attempt_def retries_def)

lemma evictPod_reaches:
  assumes "\<forall>i<n. throttled (evict i) \<and> \<not> stop i" and "\<not> throttled (evict n) \<or> stop n"
  shows "evictPod evict pod stop = Some (last_attempt pod (evict n) (retries pod n))"
proof -
  from assms(1) have "\<forall>j<n. throttled (evict (0 + j)) \<and> \<not> stop (0 + j)" by simp
  from evictPod_loop_retries [OF this, of pod "[]"]
  have "evictPod evict pod stop = evictPod_loop evict pod stop n (retries pod n)"
    by (simp add: evictPod_def)
  also have "\<dots> = Some (last_attempt pod (evict n) (retries pod n))"
    using assms(2) by (rule evictPod_loop_last)
  finally show ?thesis .
qed

lemma evictPod_Some_D:
  assumes "evictPod evict pod stop = Some r"
  shows "\<exists>n. (\<forall>i<n. throttled (evict i) \<and> \<not> stop i)
           \<and> (\<not> throttled (evict n) \<or> stop n)
           \<and> r = last_attempt pod (evict n) (retries pod n)"
  using evictPod_loop_Some_D [of evict pod stop 0 "[]" r] assms
  by (simp add: evictPod_def)

lemma ret_last_attempt_None:
  "\<not> throttled resp \<or> st \<Longrightarrow>
   (ret (last_attempt pod resp tr) = None) =
   (resp = None \<or> (\<exists>e. resp = Some e \<and> (IsNotFound e
        \<or> (IsForbidden e \<and> HasNamespaceTerminatingCause e)
        \<or> (IsTooManyRequests e \<and> st))))"
  by (cases resp) (auto simp: last_attempt_def fatal_def throttled_def)

lemma throttled_throttling: "throttled (Some throttling)"
  by (simp add: throttled_def throttling_def)

lemma fatal_internal_error: "fatal internal_error"
  by (simp add: fatal_def internal_error_def)

lemma evictPod_internal_error:
  "evictPod (\<lambda>i. Some internal_error) web_pod stop =
     Some \<lparr>ret = Some internal_error, events = [Evict ''default'' ''web-1'']\<rparr>"
  by (simp add: evictPod_def evictPod_loop.simps internal_error_def web_pod_def)

lemma evictPod_throttled_forever: "evictPod (\<lambda>i. Some throttling) p (\<lambda>_. False) = None"
  unfolding evictPod_def
  by (rule evictPod_loop_None) (simp add: throttled_throttling)

text \<open>
  Claim C4. Whenever \<^verbatim>\<open>evictPod\<close> returns, after some number \<open>n\<close> of throttled attempts with
  the stop channel open, it returns nil exactly when the answer to its last attempt is
  success, not-found, forbidden with the namespace-terminating cause, or a throttling
  answer after which the stop channel is found closed. It does return as soon as an
  attempt is not retried. An answer that none of the branches accepts (not not-found, not
  too-many-requests, not forbidden with that cause) is returned to the caller at once:
  that attempt is the last event.
\<close>

theorem evictPod_nil_iff_accepted_or_stopped:
  "(evictPod evict pod stop = Some r \<longrightarrow>
      (\<exists>n. attempts r = Suc n \<and> (\<forall>i<n. throttled (evict i) \<and> \<not> stop i) \<and>
         ((ret r = None) =
          (evict n = None \<or> (\<exists>e. evict n = Some e \<and> (IsNotFound e
              \<or> (IsForbidden e \<and> HasNamespaceTerminatingCause e)
              \<or> (IsTooManyRequests e \<and> stop n)))))))
   \<and> ((\<forall>i<n. throttled (evict i) \<and> \<not> stop i) \<and> (\<not> throttled (evict n) \<or> stop n) \<longrightarrow>
        (\<exists>r. evictPod evict pod stop = Some r \<and> attempts r = Suc n))
   \<and> ((\<forall>i<n. throttled (evict i) \<and> \<not> stop i) \<and> evict n = Some e \<and> fatal e \<longrightarrow>
        evictPod evict pod stop =
          Some \<lparr>ret = Some e, events = retries pod n @ [Evict (Namespace pod) (Name pod)]\<rparr>)"
proof (intro conjI impI)
  assume "evictPod evict pod stop = Some r"
  from evictPod_Some_D [OF this] obtain m where
    m: "\<forall>i<m. throttled (evict i) \<and> \<not> stop i" "\<not> throttled (evict m) \<or> stop m"
       "r = last_attempt pod (evict m) (retries pod m)"
    by (elim exE conjE) (rule that, assumption+)
  from m(3) have "attempts r = Suc m" by (simp add: attempts_last_attempt)
  moreover from m(2,3) have "(ret r = None) =
       (evict m = None \<or> (\<exists>e. evict m = Some e \<and> (IsNotFound e
              \<or> (IsForbidden e \<and> HasNamespaceTerminatingCause e)
              \<or> (IsTooManyRequests e \<and> stop m))))"
    by (simp add: ret_last_attempt_None)
  ultimately show "\<exists>n. attempts r = Suc n \<and> (\<forall>i<n. throttled (evict i) \<and> \<not> stop i) \<and>
         ((ret r = None) =
          (evict n = None \<or> (\<exists>e. evict n = Some e \<and> (IsNotFound e
              \<or> (IsForbidden e \<and> HasNamespaceTerminatingCause e)
              \<or> (IsTooManyRequests e \<and> stop n)))))"
    using m(1) by (intro exI [of _ m] conjI)
next
  assume "(\<forall>i<n. throttled (evict i) \<and> \<not> stop i) \<and> (\<not> throttled (evict n) \<or> stop n)"
  then have "evictPod evict pod stop = Some (last_attempt pod (evict n) (retries pod n))"
    by (intro evictPod_reaches) simp_all
  then show "\<exists>r. evictPod evict pod stop = Some r \<and> attempts r = Suc n"
    by (simp add: attempts_last_attempt)
next
  assume a: "(\<forall>i<n. throttled (evict i) \<and> \<not> stop i) \<and> evict n = Some e \<and> fatal e"
  then have "\<not> throttled (evict n)" by (simp add: throttled_def fatal_def)
  with a have "evictPod evict pod stop = Some (last_attempt pod (evict n) (retries pod n))"
    by (intro evictPod_reaches) simp_all
  with a \<open>\<not> throttled (evict n)\<close> show "evictPod evict pod stop =
          Some \<lparr>ret = Some e, events = retries pod n @ [Evict (Namespace pod) (Name pod)]\<rparr>"
    by (simp add: last_attempt_def)
qed

theorem evictPod_nil_iff_accepted_or_stopped_witness:
  "throttled (throttled_then_failing 0) \<and> throttled_then_failing 1 = Some internal_error
   \<and> fatal internal_error
   \<and> evictPod throttled_then_failing web_pod (\<lambda>_. False) =
       Some \<lparr>ret = Some internal_error,
             events = [Evict ''default'' ''web-1'', Sleep 5, Evict ''default'' ''web-1'']\<rparr>
   \<and> attempts \<lparr>ret = Some internal_error,
             events = [Evict ''default'' ''web-1'', Sleep 5, Evict ''default'' ''web-1'']\<rparr> = 2
   \<and> (\<exists>r. evictPod twice_throttled web_pod (\<lambda>i. 0 < i) = Some r \<and> attempts r = 2)"
proof -
  let ?r = "\<lparr>ret = Some internal_error,
             events = [Evict ''default'' ''web-1'', Sleep 5, Evict ''default'' ''web-1'']\<rparr>"
  have w: "Namespace web_pod = ''default''" "Name web_pod = ''web-1''"
    by (simp_all add: web_pod_def)
  have t: "throttled (throttled_then_failing 0)" "throttled_then_failing 1 = Some internal_error"
    by (simp_all add: throttled_then_failing_def throttled_throttling)
  have h: "(\<forall>i<1. throttled (throttled_then_failing i) \<and> \<not> False)
       \<and> throttled_then_failing 1 = Some internal_error \<and> fatal internal_error"
    using t fatal_internal_error by simp
  from evictPod_nil_iff_accepted_or_stopped
         [of throttled_then_failing web_pod "\<lambda>_. False" ?r 1 internal_error] h
  have run: "evictPod throttled_then_failing web_pod (\<lambda>_. False) = Some ?r"
    by (simp add: w retries_def)
  have a: "attempts ?r = 2" by (simp add: attempts_def)
  have g: "(\<forall>i<1. throttled (twice_throttled i) \<and> \<not> 0 < i)
       \<and> (\<not> throttled (twice_throttled 1) \<or> 0 < (1::nat))"
    by (simp add: twice_throttled_def throttled_throttling)
  from evictPod_nil_iff_accepted_or_stopped
         [of twice_throttled web_pod "\<lambda>i. 0 < i" _ 1] g
  have s: "\<exists>r. evictPod twice_throttled web_pod (\<lambda>i. 0 < i) = Some r \<and> attempts r = 2"
    by (simp add: numeral_2_eq_2)
  from t fatal_internal_error run a s show ?thesis by blast
qed

text \<open>
  Claim C5. For every \<open>N\<close>, when the first \<open>N\<close> attempts are throttled, the stop channel
  is open after each of them and attempt \<open>N\<close> succeeds, \<^verbatim>\<open>evictPod\<close> returns nil after
  exactly \<open>N + 1\<close> attempts, with one sleep of 5 seconds after each throttled attempt and
  nothing else; \<open>N\<close> is not bounded. A not-found answer to the first attempt gives nil
  after that one attempt, with no sleep.
\<close>

theorem evictPod_throttled_then_success:
  "((\<forall>i<N. throttled (evict i) \<and> \<not> stop i) \<and> evict N = None \<longrightarrow>
      (\<exists>r. evictPod evict pod stop = Some r \<and> ret r = None \<and> attempts r = N + 1
         \<and> events r = concat (replicate N [Evict (Namespace pod) (Name pod), Sleep 5])
                       @ [Evict (Namespace pod) (Name pod)]))
   \<and> ((\<exists>e. evict 0 = Some e \<and> IsNotFound e) \<longrightarrow>
      (\<exists>r. evictPod evict pod stop = Some r \<and> ret r = None \<and> attempts r = 1
         \<and> events r = [Evict (Namespace pod) (Name pod)]))"
proof (intro conjI impI)
  assume a: "(\<forall>i<N. throttled (evict i) \<and> \<not> stop i) \<and> evict N = None"
  then have "\<not> throttled (evict N)" by (simp add: throttled_def)
  with a have e: "evictPod evict pod stop = Some (last_attempt pod (evict N) (retries pod N))"
    by (intro evictPod_reaches) simp_all
  from a have "ret (last_attempt pod (evict N) (retries pod N)) = None"
    "events (last_attempt pod (evict N) (retries pod N)) =
       concat (replicate N [Evict (Namespace pod) (Name pod), Sleep 5])
         @ [Evict (Namespace pod) (Name pod)]"
    by (simp_all add: last_attempt_def throttled_def retries_def)
  with e show "\<exists>r. evictPod evict pod stop = Some r \<and> ret r = None \<and> attempts r = N + 1
         \<and> events r = concat (replicate N [Evict (Namespace pod) (Name pod), Sleep 5])
                       @ [Evict (Namespace pod) (Name pod)]"
    by (simp add: attempts_last_attempt)
next
  assume "\<exists>e. evict 0 = Some e \<and> IsNotFound e"
  then obtain e where e: "evict 0 = Some e" "IsNotFound e" by blast
  then have "\<not> throttled (evict 0)" by (simp add: throttled_def)
  then have "evictPod evict pod stop = Some (last_attempt pod (evict 0) (retries pod 0))"
    by (intro evictPod_reaches) simp_all
  moreover from e have "ret (last_attempt pod (evict 0) (retries pod 0)) = None"
    "events (last_attempt pod (evict 0) (retries pod 0)) = [Evict (Namespace pod) (Name pod)]"
    by (simp_all add: last_attempt_def throttled_def retries_def fatal_def)
  ultimately show "\<exists>r. evictPod evict pod stop = Some r \<and> ret r = None \<and> attempts r = 1
         \<and> events r = [Evict (Namespace pod) (Name pod)]"
    using attempts_last_attempt [of pod "evict 0" 0] by simp
qed

theorem evictPod_throttled_then_success_witness:
  "throttled (twice_throttled 0) \<and> throttled (twice_throttled 1) \<and> twice_throttled 2 = None
   \<and> (\<exists>r. evictPod twice_throttled web_pod (\<lambda>_. False) = Some r \<and> ret r = None
          \<and> attempts r = 3
          \<and> events r = [Evict ''default'' ''web-1'', Sleep 5, Evict ''default'' ''web-1'', Sleep 5,
                         Evict ''default'' ''web-1''])
   \<and> (\<exists>r. evictPod (\<lambda>_. Some not_found) web_pod (\<lambda>_. False) = Some r \<and> ret r = None
          \<and> attempts r = 1 \<and> events r = [Evict ''default'' ''web-1''])"
proof -
  have h: "(\<forall>i<2. throttled (twice_throttled i) \<and> \<not> False) \<and> twice_throttled 2 = None"
    by (simp add: twice_throttled_def throttled_throttling)
  have g: "\<exists>e. Some not_found = Some e \<and> IsNotFound e"
    by (simp add: not_found_def)
  have w: "Namespace web_pod = ''default''" "Name web_pod = ''web-1''"
    by (simp_all add: web_pod_def)
  from h have t: "throttled (twice_throttled 0)" "throttled (twice_throttled 1)"
    "twice_throttled 2 = None" by simp_all
  from evictPod_throttled_then_success [of 2 twice_throttled "\<lambda>_. False" web_pod] h
  have a: "\<exists>r. evictPod twice_throttled web_pod (\<lambda>_. False) = Some r \<and> ret r = None
          \<and> attempts r = 3
          \<and> events r = [Evict ''default'' ''web-1'', Sleep 5, Evict ''default'' ''web-1'', Sleep 5,
                         Evict ''default'' ''web-1'']"
    by (simp add: w numeral_2_eq_2 numeral_3_eq_3)
  from evictPod_throttled_then_success [of 0 "\<lambda>_. Some not_found" "\<lambda>_. False" web_pod] g
  have b: "\<exists>r. evictPod (\<lambda>_. Some not_found) web_pod (\<lambda>_. False) = Some r \<and> ret r = None
          \<and> attempts r = 1 \<and> events r = [Evict ''default'' ''web-1'']"
    by (simp add: w)
  from t a b show ?thesis by blast
qed

section \<open>Properties of evicting in batches\<close>

lemma chan_send_cap0: "capacity ch = 0 \<Longrightarrow> chan_send ch e = None"
  by (simp add: chan_send_def)

lemma evict_task_cap0:
  "capacity ch = 0 \<Longrightarrow>
   evict_task evict j p ch = (if task_ok (evict j) p then Some ch else None)"
  by (auto simp: evict_task_def task_ok_def chan_send_cap0 split: option.splits)

lemma wg_Wait_cap0:
  "capacity ch = 0 \<Longrightarrow>
   wg_Wait evict base batch ch =
     (if \<forall>i<length batch. task_ok (evict (base + i)) (batch ! i) then Some ch else None)"
proof (induction batch arbitrary: base)
  case Nil
  then show ?case by simp
next
  case (Cons p batch)
  have split: "(\<forall>i<length (p # batch). task_ok (evict (base + i)) ((p # batch) ! i)) =
        (task_ok (evict base) p \<and> (\<forall>i<length batch. task_ok (evict (Suc base + i)) (batch ! i)))"
    by (auto simp: less_Suc_eq_0_disj)
  show ?case
    unfolding split using Cons.prems Cons.IH [OF Cons.prems, of "Suc base"]
    by (simp add: evict_task_cap0)
qed

lemma take_min_length: "length xs = n \<Longrightarrow> take (min n m) xs = take m xs"
  by (simp add: min_def)

lemma evictPods_loop_exit:
  "numPodsLeft s = 0 \<Longrightarrow> evictPods_loop evict pods stop s = (Returns (), s)"
  by (subst evictPods_loop.simps) simp

lemma evictPods_loop_step:
  assumes "0 < numPodsLeft s"
    and "podsProcessedSoFar s + numPodsLeft s = length pods"
    and "podsProcessedSoFar s = 10 * length (batches s)"
  shows "evictPods_loop evict pods stop s =
    (let k = length (batches s);
         b = take 10 (drop (10 * k) pods);
         s1 = s\<lparr>stopChs := replicate (length b) (make_chan 0), batches := batches s @ [b]\<rparr>
     in if stop k then (Returns (), s1\<lparr>stopChs := map chan_close (stopChs s1)\<rparr>)
        else (case wg_Wait evict (10 * k) b (errCh s) of
                None \<Rightarrow> (Blocks, s1)
              | Some ch \<Rightarrow>
                  evictPods_loop evict pods stop
                    (s1\<lparr>errCh := ch, numPodsLeft := numPodsLeft s - length b,
                        podsProcessedSoFar := 10 * k + length b\<rparr>)))"
proof -
  have len: "length (drop (10 * length (batches s)) pods) = numPodsLeft s"
    using assms by simp
  have b: "take (min (numPodsLeft s) podsPerBatch) (drop (podsProcessedSoFar s) pods) =
           take 10 (drop (10 * length (batches s)) pods)"
    using take_min_length [OF len, of 10] assms(3) by (simp add: podsPerBatch_def)
  have n: "min (numPodsLeft s) podsPerBatch = length (take 10 (drop (10 * length (batches s)) pods))"
    using len by (simp add: podsPerBatch_def min.commute)
  have t: "take (length (take 10 (drop (10 * length (batches s)) pods)))
             (drop (10 * length (batches s)) pods) =
           take 10 (drop (10 * length (batches s)) pods)"
    by (simp add: min_def)
  show ?thesis
    by (subst evictPods_loop.simps) (simp add: assms(1,3) n t Let_def del: length_take length_drop cong: option.case_cong)
qed

lemma ceil10_step: "10 * k < (n::nat) \<Longrightarrow> Suc k \<le> (n + 9) div 10"
  by arith

lemma ceil10_last: "0 < (l::nat) \<Longrightarrow> l \<le> 10 \<Longrightarrow> (10 * k + l + 9) div 10 = Suc k"
  by arith

lemma evictPods_loop_post:
  "loop_inv evict pods stop s \<Longrightarrow> loop_post evict pods stop (evictPods_loop evict pods stop s)"
proof (induction "numPodsLeft s" arbitrary: s rule: less_induct)
  case less
  note inv = less.prems
  show ?case
  proof (cases "numPodsLeft s = 0")
    case True
    with inv show ?thesis
      by (simp add: evictPods_loop_exit loop_inv_def loop_post_def)
  next
    case False
    define k where "k = length (batches s)"
    define b where "b = take 10 (drop (10 * k) pods)"
    define s1 where
      "s1 = s\<lparr>stopChs := replicate (length b) (make_chan 0), batches := batches s @ [b]\<rparr>"
    define s2 where
      "s2 = s1\<lparr>numPodsLeft := numPodsLeft s - length b,
                podsProcessedSoFar := 10 * k + length b\<rparr>"
    from inv False have sum: "podsProcessedSoFar s + numPodsLeft s = length pods"
      and proc: "podsProcessedSoFar s = 10 * k"
      and cap: "capacity (errCh s) = 0" and emp: "queue (errCh s) = []"
      and old: "\<forall>k'<k. batches s ! k' = take 10 (drop (10 * k') pods) \<and> \<not> stop k'
                  \<and> barrier_done evict pods k'"
      by (simp_all add: loop_inv_def k_def)
    from sum proc False have lt: "10 * k < length pods" by simp
    have lenb: "length b = min (numPodsLeft s) 10"
      using sum proc by (simp add: b_def min.commute)
    have bpos: "0 < length b" using lenb False by simp
    have step: "evictPods_loop evict pods stop s =
      (if stop k then (Returns (), s1\<lparr>stopChs := map chan_close (stopChs s1)\<rparr>)
       else (case wg_Wait evict (10 * k) b (errCh s) of
               None \<Rightarrow> (Blocks, s1)
             | Some ch \<Rightarrow>
                 evictPods_loop evict pods stop
                   (s1\<lparr>errCh := ch, numPodsLeft := numPodsLeft s - length b,
                       podsProcessedSoFar := 10 * k + length b\<rparr>)))"
    proof -
      from False have pos: "0 < numPodsLeft s" by simp
      from proc have proc': "podsProcessedSoFar s = 10 * length (batches s)"
        by (simp add: k_def)
      show ?thesis
        by (subst evictPods_loop_step [OF pos sum proc'])
           (simp add: k_def b_def s1_def s2_def Let_def cong: option.case_cong)
    qed
    have bs1: "batches s1 = batches s @ [b]" by (simp add: s1_def)
    have nth1: "\<forall>k'<length (batches s1). batches s1 ! k' = take 10 (drop (10 * k') pods)"
      using old by (auto simp: bs1 k_def b_def nth_append less_Suc_eq)
    have len1: "length (batches s1) \<le> (length pods + 9) div 10"
      using ceil10_step [OF lt] by (simp add: bs1 k_def)
    have seq1: "\<forall>k'. Suc k' < length (batches s1) \<longrightarrow> \<not> stop k' \<and> barrier_done evict pods k'"
      using old by (simp add: bs1 k_def)
    have ch1: "capacity (errCh s1) = 0" "queue (errCh s1) = []"
      using cap emp by (simp_all add: s1_def)
    have wait: "wg_Wait evict (10 * k) b (errCh s) =
        (if \<forall>i<length b. task_ok (evict (10 * k + i)) (b ! i) then Some (errCh s) else None)"
      by (rule wg_Wait_cap0 [OF cap])
    have bnth: "b ! i = pods ! (10 * k + i)" if "i < length b" for i
      using that lt by (simp add: b_def)
    show ?thesis
    proof (cases "stop k")
      case True
      with step have "evictPods_loop evict pods stop s =
          (Returns (), s1\<lparr>stopChs := map chan_close (stopChs s1)\<rparr>)" by simp
      with nth1 len1 seq1 ch1 True show ?thesis
        by (auto simp: loop_post_def)
    next
      case nostop: False
      show ?thesis
      proof (cases "\<forall>i<length b. task_ok (evict (10 * k + i)) (b ! i)")
        case False
        with step nostop wait have res: "evictPods_loop evict pods stop s = (Blocks, s1)" by simp
        from False obtain i where i: "i < length b" "\<not> task_ok (evict (10 * k + i)) (b ! i)"
          by blast
        with bnth have "\<not> task_ok (evict (10 * k + i)) (pods ! (10 * k + i))" by simp
        moreover from i lenb sum proc have "10 * k + i < length pods" by simp
        ultimately have "\<not> (\<forall>j<length pods. task_ok (evict j) (pods ! j))" by blast
        with res nth1 len1 seq1 ch1 show ?thesis
          by (simp add: loop_post_def)
      next
        case True
        with step nostop wait
        have res: "evictPods_loop evict pods stop s =
            evictPods_loop evict pods stop
              (s1\<lparr>errCh := errCh s, numPodsLeft := numPodsLeft s - length b,
                  podsProcessedSoFar := 10 * k + length b\<rparr>)" by simp
        have s2eq: "s1\<lparr>errCh := errCh s, numPodsLeft := numPodsLeft s - length b,
                  podsProcessedSoFar := 10 * k + length b\<rparr> = s2" by (simp add: s2_def s1_def)
        have bdone: "barrier_done evict pods k"
          unfolding barrier_done_def
        proof
          fix j assume "j \<in> {10 * k..<min (10 * k + 10) (length pods)}"
          then have j: "10 * k \<le> j" "j < 10 * k + 10" "j < length pods" by simp_all
          then have "j - 10 * k < length b" using lenb sum proc by auto
          with True bnth [of "j - 10 * k"] j(1) show "task_ok (evict j) (pods ! j)"
            by (metis le_add_diff_inverse)
        qed
        have inv2: "loop_inv evict pods stop s2"
          unfolding loop_inv_def
        proof (intro conjI impI allI)
          show "podsProcessedSoFar s2 + numPodsLeft s2 = length pods"
            using sum proc lenb by (simp add: s2_def s1_def)
          show "capacity (errCh s2) = 0" "queue (errCh s2) = []"
            using cap emp by (simp_all add: s2_def s1_def)
          show "podsProcessedSoFar s2 = 10 * length (batches s2)" if "0 < numPodsLeft s2"
            using that lenb by (simp add: s2_def s1_def k_def)
          show "length (batches s2) = (length pods + 9) div 10" if "numPodsLeft s2 = 0"
          proof -
            from that lenb have "numPodsLeft s \<le> 10" by (simp add: s2_def s1_def)
            with False ceil10_last [of "numPodsLeft s" k] sum proc
            show ?thesis by (simp add: s2_def s1_def k_def add.assoc)
          qed
        next
          fix k' assume "k' < length (batches s2)"
          then have k': "k' < k \<or> k' = k" by (auto simp: s2_def s1_def k_def)
          have b2: "batches s2 = batches s1" by (simp add: s2_def)
          from k' show "batches s2 ! k' = take 10 (drop (10 * k') pods)"
            using nth1 by (auto simp: b2 bs1 k_def)
          from k' old nostop show "\<not> stop k'" by auto
          from k' old bdone show "barrier_done evict pods k'" by auto
        qed
        have "numPodsLeft s2 < numPodsLeft s"
          using bpos False by (simp add: s2_def s1_def lenb)
        from less.hyps [OF this inv2] res s2eq show ?thesis by simp
      qed
    qed
  qed
qed

lemma loop_inv_start: "loop_inv evict pods stop (evictPods_start pods)"
  by (simp add: loop_inv_def evictPods_start_def make_chan_def)

lemma loop_post_start:
  "loop_post evict pods stop (evictPods_loop evict pods stop (evictPods_start pods))"
  by (rule evictPods_loop_post [OF loop_inv_start])

lemma evictPods_via_loop:
  "evictPods evict pods stop =
     (case evictPods_loop evict pods stop (evictPods_start pods) of
        (Blocks, s) \<Rightarrow> (Blocks, s)
      | (Returns _, s) \<Rightarrow> (Returns None, s))"
proof -
  obtain out s where res: "evictPods_loop evict pods stop (evictPods_start pods) = (out, s)"
    by (cases "evictPods_loop evict pods stop (evictPods_start pods)")
  with loop_post_start [of evict pods stop] have "queue (errCh s) = []"
    by (simp add: loop_post_def)
  with res show ?thesis
    by (cases out) (simp_all add: evictPods_def chan_len_def)
qed

lemma evictPods_snd:
  "snd (evictPods evict pods stop) = snd (evictPods_loop evict pods stop (evictPods_start pods))"
  by (simp add: evictPods_via_loop split: prod.splits outcome.splits)

lemma evictPods_fst:
  "fst (evictPods evict pods stop) =
     (case fst (evictPods_loop evict pods stop (evictPods_start pods)) of
        Blocks \<Rightarrow> Blocks | Returns _ \<Rightarrow> Returns None)"
  by (simp add: evictPods_via_loop split: prod.splits outcome.splits)

lemma evictPods_never_returns_error: "fst (evictPods evict pods stop) \<noteq> Returns (Some e)"
  by (simp add: evictPods_fst split: outcome.splits)

lemma concat_batches:
  "\<forall>k<length bs. bs ! k = take 10 (drop (10 * k) pods) \<Longrightarrow>
   concat bs = take (10 * length bs) pods"
proof (induction bs rule: rev_induct)
  case Nil
  then show ?case by simp
next
  case (snoc b bs)
  have "bs ! k = take 10 (drop (10 * k) pods)" if "k < length bs" for k
    using snoc.prems [rule_format, of k] that by (simp add: nth_append)
  then have "concat bs = take (10 * length bs) pods" by (intro snoc.IH) simp
  moreover have "b = take 10 (drop (10 * length bs) pods)"
    using snoc.prems [rule_format, of "length bs"] by simp
  ultimately show ?case
    by (simp add: take_add [symmetric] add.commute)
qed

lemma task_ok_success: "ev 0 = None \<Longrightarrow> task_ok ev p"
  using evictPod_reaches [of 0 ev "\<lambda>_. False" p]
  by (simp add: task_ok_def throttled_def last_attempt_def)

lemma evictPods_one_pod_blocks:
  "evictPod (evict 0) p (\<lambda>_. False) = None \<or>
     (\<exists>r e. evictPod (evict 0) p (\<lambda>_. False) = Some r \<and> ret r = Some e) \<Longrightarrow> \<not> stop 0 \<Longrightarrow>
   evictPods evict [p] stop =
     (Blocks, \<lparr>numPodsLeft = 1, podsProcessedSoFar = 0, errCh = make_chan 0,
        stopChs = [make_chan 0], batches = [[p]]\<rparr>)"
  by (auto simp: evictPods_def evictPods_start_def evictPods_loop.simps Let_def podsPerBatch_def
        evict_task_def chan_send_def make_chan_def)

lemma barriers_tasks:
  assumes "\<forall>k<(length pods + 9) div 10. barrier_done evict pods k"
  shows "\<forall>j<length pods. task_ok (evict j) (pods ! j)"
proof (intro allI impI)
  fix j assume j: "j < length pods"
  then have "j div 10 < (length pods + 9) div 10" by arith
  with assms have "barrier_done evict pods (j div 10)" by simp
  moreover have "j \<in> {10 * (j div 10) ..< min (10 * (j div 10) + 10) (length pods)}"
    using j by simp
  ultimately show "task_ok (evict j) (pods ! j)"
    unfolding barrier_done_def by blast
qed

lemma barrier_done_success: "\<forall>j. evict j 0 = None \<Longrightarrow> barrier_done evict pods k"
  by (simp add: barrier_done_def task_ok_success)

text \<open>
  What holds of the batches for every input. The batches \<^verbatim>\<open>evictPods\<close> dispatches are,
  in order, the contiguous slices of ten pods of the list (the last one may be shorter),
  never more than \<open>\<lceil>n/10\<rceil>\<close> of them. Batch \<open>k + 1\<close> is dispatched only when the stop
  channel was open at the select of batch \<open>k\<close> and the barrier of batch \<open>k\<close> has completed.
  When the stop channel is never found closed and every barrier completes, \<^verbatim>\<open>evictPods\<close>
  returns nil after exactly \<open>\<lceil>n/10\<rceil>\<close> batches, which together are the whole list.
\<close>

lemma evictPods_batches_in_sequence:
  "(\<forall>k<length (batches (snd (evictPods evict pods stop))).
       batches (snd (evictPods evict pods stop)) ! k = take 10 (drop (10 * k) pods)
       \<and> length (batches (snd (evictPods evict pods stop)) ! k) \<le> 10)
   \<and> length (batches (snd (evictPods evict pods stop))) \<le> (length pods + 9) div 10
   \<and> (\<forall>k. Suc k < length (batches (snd (evictPods evict pods stop))) \<longrightarrow>
          \<not> stop k \<and> barrier_done evict pods k)
   \<and> ((\<forall>k. \<not> stop k) \<and> (\<forall>k<(length pods + 9) div 10. barrier_done evict pods k) \<longrightarrow>
          fst (evictPods evict pods stop) = Returns None
          \<and> length (batches (snd (evictPods evict pods stop))) = (length pods + 9) div 10
          \<and> concat (batches (snd (evictPods evict pods stop))) = pods)"
proof -
  let ?bs = "batches (snd (evictPods evict pods stop))"
  let ?res = "evictPods_loop evict pods stop (evictPods_start pods)"
  have bs: "?bs = batches (snd ?res)" by (simp add: evictPods_snd)
  have post: "loop_post evict pods stop ?res" by (rule loop_post_start)
  from post have nth: "\<forall>k<length ?bs. ?bs ! k = take 10 (drop (10 * k) pods)"
    unfolding bs by (simp add: loop_post_def)
  then have p1: "\<forall>k<length ?bs. ?bs ! k = take 10 (drop (10 * k) pods) \<and> length (?bs ! k) \<le> 10"
    by simp
  from post have p2: "length ?bs \<le> (length pods + 9) div 10"
    unfolding bs by (simp add: loop_post_def)
  from post have p3: "\<forall>k. Suc k < length ?bs \<longrightarrow> \<not> stop k \<and> barrier_done evict pods k"
    unfolding bs by (simp add: loop_post_def)
  have p4: "fst (evictPods evict pods stop) = Returns None
          \<and> length ?bs = (length pods + 9) div 10 \<and> concat ?bs = pods"
    if h: "(\<forall>k. \<not> stop k) \<and> (\<forall>k<(length pods + 9) div 10. barrier_done evict pods k)"
  proof -
    from h have "\<forall>j<length pods. task_ok (evict j) (pods ! j)"
      by (intro barriers_tasks) simp
    with post h have r: "fst ?res = Returns ()" and l: "length ?bs = (length pods + 9) div 10"
      unfolding bs by (simp_all add: loop_post_def)
    from r have "fst (evictPods evict pods stop) = Returns None"
      by (simp add: evictPods_fst)
    moreover have "concat ?bs = pods"
    proof -
      have "length pods \<le> 10 * length ?bs" unfolding l by arith
      with concat_batches [OF nth] show ?thesis by simp
    qed
    ultimately show ?thesis using l by simp
  qed
  from p1 p2 p3 p4 show ?thesis by blast
qed

lemma evictPods_batches_in_sequence_example:
  "length (map worker [0..<12]) = 12
   \<and> barrier_done (\<lambda>j i. None) (map worker [0..<12]) 0
   \<and> barrier_done (\<lambda>j i. None) (map worker [0..<12]) 1
   \<and> fst (evictPods (\<lambda>j i. None) (map worker [0..<12]) (\<lambda>k. False)) = Returns None
   \<and> batches (snd (evictPods (\<lambda>j i. None) (map worker [0..<12]) (\<lambda>k. False))) =
       [map worker [0..<10], map worker [10..<12]]"
proof -
  let ?pods = "map worker [0..<12]"
  let ?bs = "batches (snd (evictPods (\<lambda>j i. None) ?pods (\<lambda>k. False)))"
  have d: "barrier_done (\<lambda>j i. None) ?pods k" for k
    by (rule barrier_done_success) simp
  then have h: "(\<forall>k. \<not> False)
      \<and> (\<forall>k<(length ?pods + 9) div 10. barrier_done (\<lambda>j i. None) ?pods k)"
    by simp
  note inst = evictPods_batches_in_sequence [of "\<lambda>j i. None" ?pods "\<lambda>k. False"]
  from inst h have r: "fst (evictPods (\<lambda>j i. None) ?pods (\<lambda>k. False)) = Returns None"
    and l: "length ?bs = 2"
    by simp_all
  from inst l have "?bs ! 0 = take 10 (drop (10 * 0) ?pods)" "?bs ! 1 = take 10 (drop (10 * 1) ?pods)"
    by simp_all
  then have n: "?bs ! 0 = map worker [0..<10]" "?bs ! 1 = map worker [10..<12]"
    by (simp_all add: take_map drop_map)
  have "?bs = [?bs ! 0, ?bs ! 1]"
    using l by (auto simp: list_eq_iff_nth_eq less_Suc_eq numeral_2_eq_2)
  with n have "?bs = [map worker [0..<10], map worker [10..<12]]" by simp
  with r d [of 0] d [of 1] show ?thesis by simp
qed

lemma evictPod_fatal_at_3:
  "evictPod (fatal_at_3 3) p (\<lambda>_. False) =
     Some \<lparr>ret = Some internal_error, events = [Evict (Namespace p) (Name p)]\<rparr>"
  by (simp add: evictPod_def evictPod_loop.simps fatal_at_3_def internal_error_def)

lemma evictPod_fatal_at_3_returns: "\<exists>r. evictPod (fatal_at_3 j) p (\<lambda>_. False) = Some r"
  by (simp add: evictPod_def evictPod_loop.simps fatal_at_3_def internal_error_def)

lemma not_task_ok_fatal_at_3: "\<not> task_ok (fatal_at_3 3) p"
  by (simp add: task_ok_def evictPod_fatal_at_3)

text \<open>
  Claim C3, at a list of twelve pods where the eviction at position 3 is answered by an
  internal error, every other eviction succeeds at once and the stop channel is never
  closed: every \<^verbatim>\<open>evictPod\<close> returns, the one at position 3 with the fatal error; its task
  then blocks sending it on the unbuffered \<^verbatim>\<open>errCh\<close> and never calls \<^verbatim>\<open>wg.Done\<close>, so
  \<^verbatim>\<open>evictPods\<close> stays in \<^verbatim>\<open>wg.Wait\<close> after the first batch: one batch is dispatched, not
  the \<open>\<lceil>12/10\<rceil> = 2\<close> of the partition.
\<close>

theorem evictPods_stops_dispatch_after_fatal_error:
  "length (map worker [0..<12]) = 12
   \<and> (\<forall>j p. \<exists>r. evictPod (fatal_at_3 j) p (\<lambda>_. False) = Some r)
   \<and> evictPod (fatal_at_3 3) (worker 3) (\<lambda>_. False) =
       Some \<lparr>ret = Some internal_error,
             events = [Evict (Namespace (worker 3)) (Name (worker 3))]\<rparr>
   \<and> evictPods fatal_at_3 (map worker [0..<12]) (\<lambda>k. False) =
       (Blocks, \<lparr>numPodsLeft = 12, podsProcessedSoFar = 0, errCh = make_chan 0,
          stopChs = replicate 10 (make_chan 0), batches = [map worker [0..<10]]\<rparr>)
   \<and> length (batches (snd (evictPods fatal_at_3 (map worker [0..<12]) (\<lambda>k. False)))) = 1
   \<and> (length (map worker [0..<12]) + 9) div 10 = 2"
proof -
  let ?pods = "map worker [0..<12]"
  let ?s = "evictPods_start ?pods"
  have b: "take 10 ?pods = map worker [0..<10]"
    by (simp add: take_map)
  have w: "wg_Wait fatal_at_3 0 (map worker [0..<10]) (make_chan 0) = None"
  proof -
    have "\<not> (\<forall>i<length (map worker [0..<10]).
              task_ok (fatal_at_3 (0 + i)) (map worker [0..<10] ! i))"
      using not_task_ok_fatal_at_3 [of "map worker [0..<10] ! 3"]
      by (intro notI) (drule spec [of _ 3], simp)
    then show ?thesis
      by (subst wg_Wait_cap0) (simp_all add: make_chan_def)
  qed
  have "evictPods_loop fatal_at_3 ?pods (\<lambda>k. False) ?s =
       (Blocks, \<lparr>numPodsLeft = 12, podsProcessedSoFar = 0, errCh = make_chan 0,
          stopChs = replicate 10 (make_chan 0), batches = [map worker [0..<10]]\<rparr>)"
    by (subst evictPods_loop_step) (simp_all add: evictPods_start_def Let_def b w)
  then have e: "evictPods fatal_at_3 ?pods (\<lambda>k. False) =
       (Blocks, \<lparr>numPodsLeft = 12, podsProcessedSoFar = 0, errCh = make_chan 0,
          stopChs = replicate 10 (make_chan 0), batches = [map worker [0..<10]]\<rparr>)"
    by (simp add: evictPods_def)
  from e evictPod_fatal_at_3 [of "worker 3"] evictPod_fatal_at_3_returns show ?thesis
    by simp
qed

text \<open>
  Claim C7, at the pod \<open>twin_pod\<close>, which has two owner references and neither is a
  DaemonSet: the owner-kind filter lists it twice, and \<^verbatim>\<open>evictPods\<close> dispatches both
  copies in the same batch. The node filter lists it once.
\<close>

theorem filter_duplicates_pod_in_batch:
  "filterOutPodByOwnerReferenceKind [twin_pod] ''DaemonSet'' = [twin_pod, twin_pod]
   \<and> batches (snd (evictPods (\<lambda>j i. None)
        (filterOutPodByOwnerReferenceKind [twin_pod] ''DaemonSet'') (\<lambda>k. False))) =
       [[twin_pod, twin_pod]]
   \<and> filterOutPodByNode [twin_pod] ''node-a'' = [twin_pod]"
proof -
  have f: "filterOutPodByOwnerReferenceKind [twin_pod] ''DaemonSet'' = [twin_pod, twin_pod]"
    by (simp add: filterOutPodByOwnerReferenceKind_def twin_pod_def)
  have b: "batches (snd (evictPods (\<lambda>j i. None) [twin_pod, twin_pod] (\<lambda>k. False))) =
       [[twin_pod, twin_pod]]"
    by (simp add: evictPods_def evictPods_start_def evictPods_loop.simps Let_def podsPerBatch_def
          evict_task_def evictPod_def evictPod_loop.simps chan_send_def make_chan_def chan_len_def)
  have n: "filterOutPodByNode [twin_pod] ''node-a'' = [twin_pod]"
    by (simp add: filterOutPodByNode_def twin_pod_def)
  from f b n show ?thesis by simp
qed

section \<open>Properties of draining a node\<close>

lemma DrainNode_errCh:
  "(case out of
      Returns (Some e) \<Rightarrow> (case chan_send (make_chan 0) e of None \<Rightarrow> make_chan 0 | Some ch \<Rightarrow> ch)
    | _ \<Rightarrow> make_chan 0) = (make_chan 0 :: error chan)"
  by (simp add: chan_send_def make_chan_def split: outcome.splits option.splits)

lemma chan_len_make_chan: "chan_len (make_chan n) = 0"
  by (simp add: chan_len_def make_chan_def)

lemma closed_make_chan: "\<not> closed (make_chan n)"
  by (simp add: make_chan_def)

lemma closed_chan_close: "closed (chan_close ch)"
  by (simp add: chan_close_def)


lemma DrainNode_listed:
  assumes "list_pods c (nodeFieldSelector nodeName) 0 = Inr items"
  shows "drain_err (DrainNode c nodeName drainTimeout) = None"
    and "\<exists>sess. session (DrainNode c nodeName drainTimeout) = Some sess
           \<and> resolved sess =
               (if poll (list_pods c (nodeFieldSelector nodeName))
                     (polls_before_interrupt c drainTimeout) 1
                then DoneDraining else Interrupted (interrupt c))
           \<and> closed (stopPolling sess) = (resolved sess \<noteq> DoneDraining)
           \<and> closed (stopEvicting sess) = (resolved sess \<noteq> DoneDraining)"
  using assms
  by (simp_all add: DrainNode_def Let_def DrainNode_errCh chan_len_make_chan closed_make_chan
        closed_chan_close split: interrupt.splits)



text \<open>
  Claim C1, at the node with the single pod \<open>web_pod\<close> whose eviction is answered by an
  internal error: \<^verbatim>\<open>evictPod\<close> returns that fatal error, the task then blocks sending it
  on the unbuffered \<^verbatim>\<open>errCh\<close>, so \<^verbatim>\<open>evictPods\<close> never returns when the stop channel is open
  at its select, and returns nil when it is closed there; \<^verbatim>\<open>DrainNode\<close> returns nil.
\<close>

theorem DrainNode_drops_fatal_eviction_error:
  "evictPod (evict_response (cluster_of [web_pod] (Some internal_error)) 0) web_pod (\<lambda>_. False) =
     Some \<lparr>ret = Some internal_error, events = [Evict ''default'' ''web-1'']\<rparr>
   \<and> fatal internal_error
   \<and> fst (evictPods (evict_response (cluster_of [web_pod] (Some internal_error))) [web_pod]
            (\<lambda>k. False)) = Blocks
   \<and> fst (evictPods (evict_response (cluster_of [web_pod] (Some internal_error))) [web_pod]
            (\<lambda>k. True)) = Returns None
   \<and> drain_err (DrainNode (cluster_of [web_pod] (Some internal_error)) ''node-a'' 1) = None"
proof -
  let ?c = "cluster_of [web_pod] (Some internal_error)"
  have e: "evict_response ?c = (\<lambda>j i. Some internal_error)"
    by (simp add: cluster_of_def)
  have l: "list_pods ?c (nodeFieldSelector ''node-a'') 0 = Inr [web_pod]"
    by (simp add: cluster_of_def)
  have b: "fst (evictPods (\<lambda>j i. Some internal_error) [web_pod] (\<lambda>k. False)) = Blocks"
    by (subst evictPods_one_pod_blocks) (simp_all add: evictPod_internal_error)
  have r: "fst (evictPods (\<lambda>j i. Some internal_error) [web_pod] (\<lambda>k. True)) = Returns None"
    by (simp add: evictPods_def evictPods_start_def evictPods_loop.simps Let_def podsPerBatch_def
          chan_len_def make_chan_def)
  from e b r evictPod_internal_error fatal_internal_error DrainNode_listed(1) [OF l]
  show ?thesis by simp
qed

lemma evictPods_stop_at_first_select:
  "pods \<noteq> [] \<Longrightarrow> stop 0 \<Longrightarrow>
   evictPods evict pods stop =
     (Returns None,
      \<lparr>numPodsLeft = length pods, podsProcessedSoFar = 0, errCh = make_chan 0,
       stopChs = replicate (min (length pods) 10) (chan_close (make_chan 0)),
       batches = [take 10 pods]\<rparr>)"
  by (simp add: evictPods_def evictPods_start_def evictPods_loop.simps Let_def podsPerBatch_def
        chan_len_make_chan min_def)

text \<open>
  Claim C8, at a single pod whose eviction is throttled for ever, with the stop channel
  open at the select that follows the dispatch and closed from then on: \<^verbatim>\<open>evictPod\<close>
  never returns, \<^verbatim>\<open>evictPods\<close> stays blocked in \<^verbatim>\<open>wg.Wait\<close> and the stop channel of the
  pod is never closed. The same holds inside a drain whose timer fires after the batch
  was dispatched, although \<^verbatim>\<open>stopEvicting\<close> is closed.
\<close>

theorem evictPods_misses_stop_during_barrier:
  "evictPod (\<lambda>i. Some throttling) web_pod (\<lambda>_. False) = None
   \<and> evictPods (\<lambda>j i. Some throttling) [web_pod] (\<lambda>k. 1 \<le> k) =
       (Blocks, \<lparr>numPodsLeft = 1, podsProcessedSoFar = 0, errCh = make_chan 0,
          stopChs = [make_chan 0], batches = [[web_pod]]\<rparr>)
   \<and> closed (make_chan 0 :: bool chan) = False
   \<and> (\<exists>sess. session (DrainNode (cluster_of [web_pod] (Some throttling)) ''node-a'' 1) = Some sess
         \<and> resolved sess = Interrupted TimeoutReached
         \<and> closed (stopEvicting sess)
         \<and> fst (evicting sess) = Blocks
         \<and> stopChs (snd (evicting sess)) = [make_chan 0])"
proof -
  let ?c = "cluster_of [web_pod] (Some throttling)"
  have b: "evictPods (\<lambda>j i. Some throttling) [web_pod] (\<lambda>k. 1 \<le> k) =
       (Blocks, \<lparr>numPodsLeft = 1, podsProcessedSoFar = 0, errCh = make_chan 0,
          stopChs = [make_chan 0], batches = [[web_pod]]\<rparr>)"
    by (rule evictPods_one_pod_blocks) (simp_all add: evictPod_throttled_forever)
  have l: "list_pods ?c (nodeFieldSelector ''node-a'') 0 = Inr [web_pod]"
    by (simp add: cluster_of_def)
  have f: "filterOutPodByOwnerReferenceKind [web_pod] ''DaemonSet'' = [web_pod]"
    by (simp add: filterOutPodByOwnerReferenceKind_def web_pod_def)
  have p: "\<not> poll (list_pods ?c (nodeFieldSelector ''node-a'')) (polls_before_interrupt ?c 1) 1"
    by (simp add: cluster_of_def f)
  have s: "(\<lambda>k. Interrupted (interrupt ?c) \<noteq> DoneDraining \<and> batches_before_stop ?c \<le> k) =
        (\<lambda>k. 1 \<le> k)"
    by (auto simp: cluster_of_def)
  have "\<exists>sess. session (DrainNode ?c ''node-a'' 1) = Some sess
         \<and> resolved sess = Interrupted TimeoutReached
         \<and> closed (stopEvicting sess)
         \<and> evicting sess = evictPods (\<lambda>j i. Some throttling) [web_pod] (\<lambda>k. 1 \<le> k)"
    using l p
    apply (simp add: DrainNode_def Let_def DrainNode_errCh chan_len_make_chan closed_chan_close f s)
    apply (simp add: cluster_of_def closed_chan_close f)
    done
  with b evictPod_throttled_forever [of web_pod] show ?thesis
    by (auto simp: closed_make_chan)
qed

section \<open>Properties of the node operations\<close>

lemma Split_not_Nil: "Split s sep \<noteq> []"
  by (induction s) (auto split: list.splits)

lemma Split_length: "length (Split s sep) = Suc (length (filter (\<lambda>x. x = sep) s))"
  by (induction s) (auto split: list.splits simp: Split_not_Nil)

lemma Split_pieces: "w \<in> set (Split s sep) \<Longrightarrow> sep \<notin> set w"
  by (induction s arbitrary: w) (auto split: list.splits if_splits)

lemma Split_concat: "concat (Split s sep) = filter (\<lambda>x. x \<noteq> sep) s"
  by (induction s) (auto split: list.splits)

lemma Split_gke:
  "Split (ProviderID gke_node) CHR ''/'' =
     [''gce:'', [], ''my-project'', ''europe-west1-b'', ''gke-node-1'']"
  by (simp add: gke_node_def)

text \<open>
  Claim C9. When the node is fetched and its provider id, split at every slash, has at
  least four segments, \<^verbatim>\<open>GetProjectIdAndZoneFromNode\<close> returns segment 2 as the project id
  and segment 3 as the zone, with a nil error. When fetching the node fails it returns
  that error with two empty strings, whatever the node would have been.
\<close>

theorem GetProjectIdAndZoneFromNode_segments:
  "(GetNode c nodeName = Inr nd \<and> 4 \<le> length (Split (ProviderID nd) CHR ''/'') \<longrightarrow>
      GetProjectIdAndZoneFromNode c nodeName =
        Return (Split (ProviderID nd) CHR ''/'' ! 2, Split (ProviderID nd) CHR ''/'' ! 3, None))
   \<and> (GetNode c nodeName = Inl e \<longrightarrow>
      GetProjectIdAndZoneFromNode c nodeName = Return ([], [], Some e))"
  by (simp add: GetProjectIdAndZoneFromNode_def Let_def)

theorem GetProjectIdAndZoneFromNode_segments_witness:
  "GetNode (cluster_of [] None) ''gke-node-1'' = Inr gke_node
   \<and> length (Split (ProviderID gke_node) CHR ''/'') = 5
   \<and> GetProjectIdAndZoneFromNode (cluster_of [] None) ''gke-node-1'' =
       Return (''my-project'', ''europe-west1-b'', None)
   \<and> GetNode (cluster_of [] None) ''gke-node-9'' = Inl not_found
   \<and> GetProjectIdAndZoneFromNode (cluster_of [] None) ''gke-node-9'' =
       Return ([], [], Some not_found)"
proof -
  have g: "GetNode (cluster_of [] None) ''gke-node-1'' = Inr gke_node"
    "GetNode (cluster_of [] None) ''gke-node-9'' = Inl not_found"
    by (simp_all add: GetNode_def cluster_of_def)
  from GetProjectIdAndZoneFromNode_segments [of "cluster_of [] None" "''gke-node-1''" gke_node]
    GetProjectIdAndZoneFromNode_segments [of "cluster_of [] None" "''gke-node-9''" _ not_found]
    g show ?thesis
    by (simp add: Split_gke)
qed

text \<open>
  Claim C10. \<^verbatim>\<open>SetNodeAnnotation\<close> hands to \<^verbatim>\<open>Update\<close> the node it has just fetched with
  the key set to the value in its annotation map, and returns the answer of \<^verbatim>\<open>Update\<close>,
  provided the fetched node has an annotation map. For a fetched node whose annotation
  map is nil the assignment panics; nothing is returned and \<^verbatim>\<open>Update\<close> is not called. A
  failed fetch is returned as an error, without an update.
\<close>

theorem SetNodeAnnotation_needs_annotation_map:
  "(GetNode c nodeName = Inr nd \<and> Annotations nd = Some m \<longrightarrow>
      SetNodeAnnotation c nodeName key val =
        Return \<lparr>set_err = update_node c (nd\<lparr>Annotations := Some (m(key \<mapsto> val))\<rparr>),
                updated = Some (nd\<lparr>Annotations := Some (m(key \<mapsto> val))\<rparr>)\<rparr>)
   \<and> (GetNode c nodeName = Inr nd \<and> Annotations nd = None \<longrightarrow>
      SetNodeAnnotation c nodeName key val = Panic NilMapAssignment)
   \<and> (GetNode c nodeName = Inl e \<longrightarrow>
      (\<exists>r. SetNodeAnnotation c nodeName key val = Return r \<and> set_err r \<noteq> None
           \<and> updated r = None))"
  by (simp add: SetNodeAnnotation_def Let_def)

theorem SetNodeAnnotation_needs_annotation_map_witness:
  "GetNode (cluster_of [] None) ''gke-node-1'' = Inr gke_node
   \<and> Annotations gke_node = Some Map.empty
   \<and> SetNodeAnnotation (cluster_of [] None) ''gke-node-1'' ''state'' ''done'' =
       Return \<lparr>set_err = None,
               updated = Some (gke_node\<lparr>Annotations := Some [''state'' \<mapsto> ''done'']\<rparr>)\<rparr>
   \<and> GetNode (cluster_of [] None) ''gke-node-2'' = Inr fresh_node
   \<and> Annotations fresh_node = None
   \<and> SetNodeAnnotation (cluster_of [] None) ''gke-node-2'' ''state'' ''done'' =
       Panic NilMapAssignment"
proof -
  have g: "GetNode (cluster_of [] None) ''gke-node-1'' = Inr gke_node"
    "GetNode (cluster_of [] None) ''gke-node-2'' = Inr fresh_node"
    by (simp_all add: GetNode_def cluster_of_def)
  have a: "Annotations gke_node = Some Map.empty" "Annotations fresh_node = None"
    by (simp_all add: gke_node_def fresh_node_def)
  have u: "update_node (cluster_of [] None) n = None" for n
    by (simp add: cluster_of_def)
  from SetNodeAnnotation_needs_annotation_map
         [of "cluster_of [] None" "''gke-node-1''" gke_node Map.empty "''state''" "''done''"]
    SetNodeAnnotation_needs_annotation_map
         [of "cluster_of [] None" "''gke-node-2''" fresh_node _ "''state''" "''done''"]
    g a show ?thesis
    by (simp add: u)
qed

end
